theory Spec2Isabelle
  imports Main "HOL-Library.Word" "HOL-Library.Sublist"
begin

section \<open>Errors and results\<close>

text \<open>
  The front end signals failure by throwing. The argument checks of
  \<^verbatim>\<open>Source.hpp\<close>, \<^verbatim>\<open>Representation.hpp\<close> and \<^verbatim>\<open>Feature.cpp\<close> throw
  \<^verbatim>\<open>std::runtime_error(msg)\<close>; the specification calls this kind InvalidArgument, and
  the constructor keeps the message of the throw. NullEntity is raised on dispatch through
  an empty handle, NotFound by a failed lookup, and BackendError stands for any other
  exception a backend raises; all of them propagate unchanged through the front end.
\<close>

datatype error =
    InvalidArgument string
  | NullEntity
  | NotFound
  | BackendError string

text \<open>Sequencing of two fallible computations: the first exception raised wins.\<close>

definition ebind :: "error + 'a \<Rightarrow> ('a \<Rightarrow> error + 'b) \<Rightarrow> error + 'b" where
  "ebind m f = (case m of Inl e \<Rightarrow> Inl e | Inr x \<Rightarrow> f x)"

text \<open>
  A mutating call returns its outcome together with the backend state it leaves behind,
  so that a throw after a partial mutation would be visible.
\<close>

definition sbind :: "error + 'a \<Rightarrow> 's \<Rightarrow> ('a \<Rightarrow> (error + 'b) \<times> 's) \<Rightarrow> (error + 'b) \<times> 's" where
  "sbind m st f = (case m of Inl e \<Rightarrow> (Inl e, st) | Inr x \<Rightarrow> f x)"

section \<open>Entity handles\<close>

text \<open>
  A handle owns a \<^verbatim>\<open>std::shared_ptr\<close> to a backend object: \<open>None\<close> is the null pointer
  (the state "none"), \<open>Some p\<close> a reference to the backend object \<open>p\<close>. The type \<open>'o\<close>
  is the identity of backend objects, so \<open>=\<close> on it is pointer equality.
\<close>

type_synonym 'o handle = "'o option"

text \<open>Modelled from the spec: the default constructor of \<^verbatim>\<open>base::Entity\<close>
  (\<^verbatim>\<open>nix/base/Entity.hpp\<close> is not in src/): "Default-construct to empty".\<close>

definition default_handle :: "'o handle" where
  "default_handle = None"

text \<open>Modelled from the spec: \<^verbatim>\<open>Entity::backend()\<close> (\<^verbatim>\<open>nix/base/Entity.hpp\<close> is not in
  src/): "any operation requiring the backend on an empty handle fails with NullEntity".\<close>

definition backend :: "'o handle \<Rightarrow> error + 'o" where
  "backend h = (case h of None \<Rightarrow> Inl NullEntity | Some p \<Rightarrow> Inr p)"

text \<open>Modelled from the spec: \<^verbatim>\<open>Entity::nullify()\<close> (\<^verbatim>\<open>nix/base/Entity.hpp\<close> is not in
  src/): "transitions the handle to empty, releasing any prior share".\<close>

definition nullify :: "'o handle \<Rightarrow> 'o handle" where
  "nullify h = None"

text \<open>Modelled from the spec: \<^verbatim>\<open>Entity::operator==\<close> (\<^verbatim>\<open>nix/base/Entity.hpp\<close> is not in
  src/): "two handles compare equal iff their backend references denote the same object,
  or both are empty". The comparison goes through the two cases as the sentence does.\<close>

fun handle_eq :: "'o handle \<Rightarrow> 'o handle \<Rightarrow> bool" where
  "handle_eq None None = True"
| "handle_eq (Some p) (Some q) = (p = q)"
| "handle_eq _ _ = False"

text \<open>Modelled from the spec: the comparison \<^verbatim>\<open>entity == none\<close> of
  \<^verbatim>\<open>nix/base/Entity.hpp\<close> (not in src/), true exactly for the empty handle.\<close>

definition is_none :: "'o handle \<Rightarrow> bool" where
  "is_none h = (case h of None \<Rightarrow> True | Some _ \<Rightarrow> False)"

text \<open>Modelled from the spec: \<^verbatim>\<open>Entity::id()\<close> (\<^verbatim>\<open>nix/base/Entity.hpp\<close> is not in src/),
  a pure forwarding call to the backend's identity accessor \<open>idf\<close>. The accessor is total
  on a backend object (the id is immutable after creation).\<close>

definition entity_id :: "('o \<Rightarrow> 's \<Rightarrow> string) \<Rightarrow> 'o handle \<Rightarrow> 's \<Rightarrow> error + string" where
  "entity_id idf h st = ebind (backend h) (\<lambda>p. Inr (idf p st))"

section \<open>LinkType and its rendering (Feature.cpp)\<close>

text \<open>
  Modelled from the spec: the declaration of the scoped enum \<^verbatim>\<open>LinkType\<close> is not in src/.
  A scoped enum has the underlying type \<^verbatim>\<open>int\<close>, every value of which is a value of the
  enum; the enumerators Tagged, Untagged, Indexed are numbered in the order the
  specification lists them.
\<close>

type_synonym LinkType = "32 word"

definition Tagged :: LinkType where "Tagged = 0"
definition Untagged :: LinkType where "Untagged = 1"
definition Indexed :: LinkType where "Indexed = 2"

text \<open>\<^verbatim>\<open>link_type_to_string\<close>, Feature.cpp lines 22-35: \<^verbatim>\<open>str\<close> starts empty, the
  switch has three cases and no default.\<close>

definition link_type_to_string :: "LinkType \<Rightarrow> string" where
  "link_type_to_string ltype =
     (let str = [] in
      if ltype = Tagged then ''Tagged''
      else if ltype = Untagged then ''Untagged''
      else if ltype = Indexed then ''Indexed''
      else str)"

subsection \<open>Output streams\<close>

text \<open>
  What formatted insertion into a \<^verbatim>\<open>std::ostream\<close> depends on and changes: the characters
  written so far, the pending field width (0 unless one was set, as by \<^verbatim>\<open>std::setw\<close>),
  the fill character, the adjustment, and whether the stream is in good state. An
  adjustment that was never set pads like \<^verbatim>\<open>right\<close>. The stream buffer is one that takes
  every character, as that of a string stream does.
\<close>

datatype adjustfield = AdjustLeft | AdjustRight | AdjustInternal

record ostream =
  os_chars :: string
  os_width :: nat
  os_fill :: char
  os_adjust :: adjustfield
  os_good :: bool

text \<open>A stream that has written \<open>cs\<close> and whose format state is the initial one.\<close>

definition plain_ostream :: "string \<Rightarrow> ostream" where
  "plain_ostream cs =
     \<lparr> os_chars = cs, os_width = 0, os_fill = CHR '' '', os_adjust = AdjustRight,
       os_good = True \<rparr>"

text \<open>
  \<^verbatim>\<open>out << s\<close> for a string \<open>s\<close>, as the C++ standard library defines it: on a stream
  that is not good nothing is written; otherwise \<open>s\<close> is padded with the fill character
  to the field width, after \<open>s\<close> when the adjustment is \<^verbatim>\<open>left\<close> and before it
  otherwise, and the width is reset to 0.
\<close>

definition insert_string :: "ostream \<Rightarrow> string \<Rightarrow> ostream" where
  "insert_string out s =
     (if os_good out
      then (let pad = replicate (os_width out - length s) (os_fill out)
            in out\<lparr> os_chars := os_chars out @ (if os_adjust out = AdjustLeft then s @ pad
                                                  else pad @ s),
                     os_width := 0 \<rparr>)
      else out)"

text \<open>\<^verbatim>\<open>operator<<(std::ostream &, LinkType)\<close>, Feature.cpp lines 37-40: two
  insertions, the prefix and then the name.\<close>

definition stream_LinkType :: "ostream \<Rightarrow> LinkType \<Rightarrow> ostream" where
  "stream_LinkType out ltype =
     insert_string (insert_string out ''LinkType::'') (link_type_to_string ltype)"

section \<open>Representation and Feature\<close>

text \<open>
  The backend capability of a Representation or Feature (\<^verbatim>\<open>IRepresentation\<close>,
  \<^verbatim>\<open>IFeature\<close>; declared outside src/) is a parameter: a record of the methods the front
  end calls, each a function of the backend object and the backend state \<open>'s\<close>. Setters
  return the outcome and the new state. Nothing is assumed about what they do.
\<close>

record ('o, 'd, 's) IRepresentation =
  impl_linkType_set :: "'o \<Rightarrow> LinkType \<Rightarrow> 's \<Rightarrow> (error + unit) \<times> 's"
  impl_linkType_get :: "'o \<Rightarrow> 's \<Rightarrow> error + LinkType"
  impl_data_set :: "'o \<Rightarrow> string \<Rightarrow> 's \<Rightarrow> (error + unit) \<times> 's"
  impl_data_get :: "'o \<Rightarrow> 's \<Rightarrow> error + 'd handle"

type_synonym ('o, 'd, 's) IFeature = "('o, 'd, 's) IRepresentation"

text \<open>Representation.hpp lines 55-57.\<close>

definition Representation_linkType_set ::
  "('o, 'd, 's) IRepresentation \<Rightarrow> 'o handle \<Rightarrow> LinkType \<Rightarrow> 's \<Rightarrow> (error + unit) \<times> 's" where
  "Representation_linkType_set B r type st =
     sbind (backend r) st (\<lambda>p. impl_linkType_set B p type st)"

text \<open>Representation.hpp lines 64-66.\<close>

definition Representation_linkType ::
  "('o, 'd, 's) IRepresentation \<Rightarrow> 'o handle \<Rightarrow> 's \<Rightarrow> error + LinkType" where
  "Representation_linkType B r st = ebind (backend r) (\<lambda>p. impl_linkType_get B p st)"

text \<open>Representation.hpp lines 73-75: set by raw id, no existence check.\<close>

definition Representation_data_id ::
  "('o, 'd, 's) IRepresentation \<Rightarrow> 'o handle \<Rightarrow> string \<Rightarrow> 's \<Rightarrow> (error + unit) \<times> 's" where
  "Representation_data_id B r data_array_id st =
     sbind (backend r) st (\<lambda>p. impl_data_set B p data_array_id st)"

text \<open>Representation.hpp lines 82-89. \<open>idf\<close> is the identity accessor of the DataArray
  backend.\<close>

definition Representation_data ::
  "('o, 'd, 's) IRepresentation \<Rightarrow> ('d \<Rightarrow> 's \<Rightarrow> string) \<Rightarrow> 'o handle \<Rightarrow> 'd handle \<Rightarrow> 's
     \<Rightarrow> (error + unit) \<times> 's" where
  "Representation_data B idf r data st =
     (if is_none data then (Inl (InvalidArgument ''Empty data entity (DataArray) given''), st)
      else sbind (backend r) st (\<lambda>p.
             sbind (entity_id idf data st) st (\<lambda>i. impl_data_set B p i st)))"

text \<open>Representation.hpp lines 96-98.\<close>

definition Representation_data_get ::
  "('o, 'd, 's) IRepresentation \<Rightarrow> 'o handle \<Rightarrow> 's \<Rightarrow> error + 'd handle" where
  "Representation_data_get B r st = ebind (backend r) (\<lambda>p. impl_data_get B p st)"

text \<open>\<^verbatim>\<open>Feature::data(const DataArray &)\<close>, Feature.cpp lines 13-20.\<close>

definition Feature_data ::
  "('o, 'd, 's) IFeature \<Rightarrow> ('d \<Rightarrow> 's \<Rightarrow> string) \<Rightarrow> 'o handle \<Rightarrow> 'd handle \<Rightarrow> 's
     \<Rightarrow> (error + unit) \<times> 's" where
  "Feature_data B idf f data st =
     (if is_none data then (Inl (InvalidArgument ''Empty data entity (DataArray) given''), st)
      else sbind (backend f) st (\<lambda>p.
             sbind (entity_id idf data st) st (\<lambda>i. impl_data_set B p i st)))"

section \<open>Source (Source.hpp)\<close>

text \<open>
  The backend capability of a Source (\<^verbatim>\<open>base::ISource\<close>, declared outside src/) is a
  parameter as well. Lookups return a Source handle; \<^verbatim>\<open>createSource\<close> and
  \<^verbatim>\<open>deleteSource\<close> change the backend state.
\<close>

record ('o, 's) ISource =
  impl_id :: "'o \<Rightarrow> 's \<Rightarrow> string"
  impl_hasSource :: "'o \<Rightarrow> string \<Rightarrow> 's \<Rightarrow> error + bool"
  impl_getSource_id :: "'o \<Rightarrow> string \<Rightarrow> 's \<Rightarrow> error + 'o handle"
  impl_getSource_index :: "'o \<Rightarrow> nat \<Rightarrow> 's \<Rightarrow> error + 'o handle"
  impl_sourceCount :: "'o \<Rightarrow> 's \<Rightarrow> error + nat"
  impl_createSource :: "'o \<Rightarrow> string \<Rightarrow> string \<Rightarrow> 's \<Rightarrow> (error + 'o handle) \<times> 's"
  impl_deleteSource :: "'o \<Rightarrow> string \<Rightarrow> 's \<Rightarrow> (error + bool) \<times> 's"

text \<open>\<^verbatim>\<open>source.id()\<close> on a Source handle.\<close>

definition Source_id :: "('o, 's) ISource \<Rightarrow> 'o handle \<Rightarrow> 's \<Rightarrow> error + string" where
  "Source_id B s st = entity_id (impl_id B) s st"

text \<open>\<^verbatim>\<open>hasSource(const std::string &)\<close>, Source.hpp lines 53-55.\<close>

definition Source_hasSource_id ::
  "('o, 's) ISource \<Rightarrow> 'o handle \<Rightarrow> string \<Rightarrow> 's \<Rightarrow> error + bool" where
  "Source_hasSource_id B s i st = ebind (backend s) (\<lambda>p. impl_hasSource B p i st)"

text \<open>\<^verbatim>\<open>hasSource(const Source &)\<close>, Source.hpp lines 65-70.\<close>

definition Source_hasSource ::
  "('o, 's) ISource \<Rightarrow> 'o handle \<Rightarrow> 'o handle \<Rightarrow> 's \<Rightarrow> error + bool" where
  "Source_hasSource B s source st =
     (if is_none source
      then Inl (InvalidArgument ''Source::hasSource: emtpy Source entity given!'')
      else ebind (backend s) (\<lambda>p.
             ebind (Source_id B source st) (\<lambda>i. impl_hasSource B p i st)))"

text \<open>\<^verbatim>\<open>getSource(const std::string &)\<close>, Source.hpp lines 80-82.\<close>

definition Source_getSource_id ::
  "('o, 's) ISource \<Rightarrow> 'o handle \<Rightarrow> string \<Rightarrow> 's \<Rightarrow> error + 'o handle" where
  "Source_getSource_id B s i st = ebind (backend s) (\<lambda>p. impl_getSource_id B p i st)"

text \<open>\<^verbatim>\<open>getSource(size_t)\<close>, Source.hpp lines 93-95.\<close>

definition Source_getSource_index ::
  "('o, 's) ISource \<Rightarrow> 'o handle \<Rightarrow> nat \<Rightarrow> 's \<Rightarrow> error + 'o handle" where
  "Source_getSource_index B s index st =
     ebind (backend s) (\<lambda>p. impl_getSource_index B p index st)"

text \<open>\<^verbatim>\<open>sourceCount()\<close>, Source.hpp lines 102-104.\<close>

definition Source_sourceCount :: "('o, 's) ISource \<Rightarrow> 'o handle \<Rightarrow> 's \<Rightarrow> error + nat" where
  "Source_sourceCount B s st = ebind (backend s) (\<lambda>p. impl_sourceCount B p st)"

text \<open>Modelled from the spec: \<^verbatim>\<open>util::getEntities\<close> (\<^verbatim>\<open>nix/util/util.hpp\<close> is not in
  src/): it "materializes all" entities \<open>getter 0\<close>, ..., \<open>getter (n - 1)\<close> "passing
  filter, preserving" their order. \<open>collect\<close> is the loop over the indices; the first
  getter that throws ends it.\<close>

fun collect :: "(nat \<Rightarrow> error + 'a) \<Rightarrow> nat list \<Rightarrow> error + 'a list" where
  "collect getter [] = Inr []"
| "collect getter (i # is) =
     (case getter i of
        Inl e \<Rightarrow> Inl e
      | Inr x \<Rightarrow> (case collect getter is of Inl e \<Rightarrow> Inl e | Inr xs \<Rightarrow> Inr (x # xs)))"

definition getEntities ::
  "(nat \<Rightarrow> error + 'a) \<Rightarrow> nat \<Rightarrow> ('a \<Rightarrow> bool) \<Rightarrow> error + 'a list" where
  "getEntities getter n flt = ebind (collect getter [0..<n]) (\<lambda>es. Inr (filter flt es))"

text \<open>Modelled from the spec: \<^verbatim>\<open>util::AcceptAll\<close> (\<^verbatim>\<open>nix/util/filter.hpp\<close> is not in
  src/), the default filter "accept-all".\<close>

definition AcceptAll :: "'a \<Rightarrow> bool" where
  "AcceptAll e = True"

text \<open>\<^verbatim>\<open>sources(filter)\<close>, Source.hpp lines 116-123.\<close>

definition Source_sources ::
  "('o, 's) ISource \<Rightarrow> 'o handle \<Rightarrow> ('o handle \<Rightarrow> bool) \<Rightarrow> 's \<Rightarrow> error + 'o handle list" where
  "Source_sources B s flt st =
     (let f = (\<lambda>i. Source_getSource_index B s i st)
      in ebind (Source_sourceCount B s st) (\<lambda>n. getEntities f n flt))"

text \<open>\<^verbatim>\<open>createSource\<close>, Source.hpp lines 148-150.\<close>

definition Source_createSource ::
  "('o, 's) ISource \<Rightarrow> 'o handle \<Rightarrow> string \<Rightarrow> string \<Rightarrow> 's \<Rightarrow> (error + 'o handle) \<times> 's" where
  "Source_createSource B s name type st =
     sbind (backend s) st (\<lambda>p. impl_createSource B p name type st)"

text \<open>\<^verbatim>\<open>deleteSource(const std::string &)\<close>, Source.hpp lines 160-162.\<close>

definition Source_deleteSource_id ::
  "('o, 's) ISource \<Rightarrow> 'o handle \<Rightarrow> string \<Rightarrow> 's \<Rightarrow> (error + bool) \<times> 's" where
  "Source_deleteSource_id B s i st = sbind (backend s) st (\<lambda>p. impl_deleteSource B p i st)"

text \<open>\<^verbatim>\<open>deleteSource(const Source &)\<close>, Source.hpp lines 172-177.\<close>

definition Source_deleteSource ::
  "('o, 's) ISource \<Rightarrow> 'o handle \<Rightarrow> 'o handle \<Rightarrow> 's \<Rightarrow> (error + bool) \<times> 's" where
  "Source_deleteSource B s source st =
     (if is_none source
      then (Inl (InvalidArgument ''Source::deleteSource: empty Source entity given!''), st)
      else sbind (backend s) st (\<lambda>p.
             sbind (Source_id B source st) st (\<lambda>i. impl_deleteSource B p i st)))"

text \<open>\<^verbatim>\<open>operator=(none_t)\<close>, Source.hpp lines 183-186: the handle after the assignment.\<close>

definition Source_assign_none :: "'o handle \<Rightarrow> 'o handle" where
  "Source_assign_none s = nullify s"

subsection \<open>Tree search\<close>

text \<open>
  Modelled from the spec: \<^verbatim>\<open>Source::findSources\<close> is declared in Source.hpp (lines
  136-137) and its body is not in src/. The specification: "the receiver is visited at
  depth 0 and evaluated by the predicate; children are visited up to max_depth (a node at
  exactly max_depth is evaluated but its children are not descended into); matching nodes
  are appended to the result in pre-order: parent before children, siblings in the order
  returned by sources()".

  \<open>findSources_rec\<close> visits the node \<open>cur\<close> at depth \<open>depth\<close> with the results so far;
  \<open>findSources_children\<close> is the loop over its children. The search is read-only, so
  the backend state \<open>st\<close> is the same at every call. An exception of \<open>sources()\<close> ends the
  search.
\<close>

function findSources_rec ::
    "('o, 's) ISource \<Rightarrow> 's \<Rightarrow> ('o handle \<Rightarrow> bool) \<Rightarrow> nat \<Rightarrow> nat \<Rightarrow> 'o handle
       \<Rightarrow> 'o handle list \<Rightarrow> error + 'o handle list"
  and findSources_children ::
    "('o, 's) ISource \<Rightarrow> 's \<Rightarrow> ('o handle \<Rightarrow> bool) \<Rightarrow> nat \<Rightarrow> nat \<Rightarrow> 'o handle list
       \<Rightarrow> 'o handle list \<Rightarrow> error + 'o handle list" where
  "findSources_rec B st flt max_depth depth cur results =
     (let results1 = (if flt cur then results @ [cur] else results)
      in if depth < max_depth
         then (case Source_sources B cur AcceptAll st of
                 Inl e \<Rightarrow> Inl e
               | Inr children \<Rightarrow>
                   findSources_children B st flt max_depth (depth + 1) children results1)
         else Inr results1)"
| "findSources_children B st flt max_depth depth [] results = Inr results"
| "findSources_children B st flt max_depth depth (c # cs) results =
     (case findSources_rec B st flt max_depth depth c results of
        Inl e \<Rightarrow> Inl e
      | Inr results1 \<Rightarrow> findSources_children B st flt max_depth depth cs results1)"
  by pat_completeness auto
termination
  by (relation "inv_image (less_than <*lex*> less_than)
        (\<lambda>x. case x of
           Inl (B, st, flt, max_depth, depth, cur, results) \<Rightarrow> (2 * (max_depth - depth) + 1, 0)
         | Inr (B, st, flt, max_depth, depth, cs, results) \<Rightarrow>
             (2 * (max_depth - depth) + 2, length cs))")
     auto

declare findSources_rec.simps [simp del]

definition findSources ::
  "('o, 's) ISource \<Rightarrow> 'o handle \<Rightarrow> ('o handle \<Rightarrow> bool) \<Rightarrow> nat \<Rightarrow> 's \<Rightarrow> error + 'o handle list" where
  "findSources B s flt max_depth st = findSources_rec B st flt max_depth 0 s []"

section \<open>A backend holding the Source tree\<close>

text \<open>
  Modelled from the spec: the persistence backend is not in src/. This one keeps the
  hierarchy of the data model in memory: "a Source owns an ordered set of child Sources
  forming an acyclic tree", each with an id that is "globally unique". The backend state
  is the root node, and a backend object is named by its id.
\<close>

datatype source_node =
  SourceNode (node_id: string) (node_name: string) (node_type: string)
    (node_children: "source_node list")

text \<open>All nodes of a tree in pre-order: parent before children, siblings in order.\<close>

fun preorder :: "source_node \<Rightarrow> source_node list" where
  "preorder (SourceNode i n t cs) = SourceNode i n t cs # concat (map preorder cs)"

definition node_ids :: "source_node \<Rightarrow> string list" where
  "node_ids t = map node_id (preorder t)"

text \<open>The invariant of the data model: no two nodes of the tree share an id.\<close>

definition unique_ids :: "source_node \<Rightarrow> bool" where
  "unique_ids t = distinct (node_ids t)"

text \<open>Modelled from the spec: resolving a backend object, the first node with the id,
  searching the tree from the root.\<close>

fun find_node :: "string \<Rightarrow> source_node \<Rightarrow> source_node option"
  and find_nodes :: "string \<Rightarrow> source_node list \<Rightarrow> source_node option" where
  "find_node i (SourceNode j n t cs) =
     (if i = j then Some (SourceNode j n t cs) else find_nodes i cs)"
| "find_nodes i [] = None"
| "find_nodes i (c # cs) =
     (case find_node i c of Some r \<Rightarrow> Some r | None \<Rightarrow> find_nodes i cs)"

text \<open>Modelled from the spec: "a handle may outlive the backend object it once pointed
  to"; a call through such a handle is a backend error.\<close>

definition stale :: error where
  "stale = BackendError ''stale handle''"

text \<open>The handle to a node of the tree.\<close>

definition handle_of :: "source_node \<Rightarrow> string handle" where
  "handle_of n = Some (node_id n)"

text \<open>Modelled from the spec: the "identity accessor (id)" of the Source capability.\<close>

definition tree_id :: "string \<Rightarrow> source_node \<Rightarrow> string" where
  "tree_id p st = p"

text \<open>Modelled from the spec: "true iff a direct child matches".\<close>

definition tree_hasSource :: "string \<Rightarrow> string \<Rightarrow> source_node \<Rightarrow> error + bool" where
  "tree_hasSource p i st =
     (case find_node p st of
        None \<Rightarrow> Inl stale
      | Some n \<Rightarrow> Inr (i \<in> set (map node_id (node_children n))))"

text \<open>Modelled from the spec: "returns the matching direct child; fails with NotFound if
  absent/out of range", by id and by index.\<close>

definition tree_getSource_id ::
  "string \<Rightarrow> string \<Rightarrow> source_node \<Rightarrow> error + string handle" where
  "tree_getSource_id p i st =
     (case find_node p st of
        None \<Rightarrow> Inl stale
      | Some n \<Rightarrow>
          (case find (\<lambda>c. node_id c = i) (node_children n) of
             None \<Rightarrow> Inl NotFound
           | Some c \<Rightarrow> Inr (handle_of c)))"

definition tree_getSource_index ::
  "string \<Rightarrow> nat \<Rightarrow> source_node \<Rightarrow> error + string handle" where
  "tree_getSource_index p index st =
     (case find_node p st of
        None \<Rightarrow> Inl stale
      | Some n \<Rightarrow>
          if index < length (node_children n) then Inr (handle_of (node_children n ! index))
          else Inl NotFound)"

text \<open>Modelled from the spec: "number of direct children".\<close>

definition tree_sourceCount :: "string \<Rightarrow> source_node \<Rightarrow> error + nat" where
  "tree_sourceCount p st =
     (case find_node p st of None \<Rightarrow> Inl stale | Some n \<Rightarrow> Inr (length (node_children n)))"

text \<open>Modelled from the spec: a mutation of the tree, replacing the children of the node
  with id \<open>p\<close>.\<close>

fun update_children ::
  "string \<Rightarrow> (source_node list \<Rightarrow> source_node list) \<Rightarrow> source_node \<Rightarrow> source_node" where
  "update_children p f (SourceNode j n t cs) =
     (if j = p then SourceNode j n t (f cs)
      else SourceNode j n t (map (update_children p f) cs))"

text \<open>Modelled from the spec: a new id, "globally unique": longer than every id in use.\<close>

definition fresh_id :: "source_node \<Rightarrow> string" where
  "fresh_id st = replicate (Suc (fold max (map length (node_ids st)) 0)) CHR ''s''"

text \<open>Modelled from the spec: "backend allocates a new child node and returns its
  handle; fails if name violates backend naming rules": here, an empty name. The new child
  is the last one.\<close>

definition tree_createSource ::
  "string \<Rightarrow> string \<Rightarrow> string \<Rightarrow> source_node \<Rightarrow> (error + string handle) \<times> source_node" where
  "tree_createSource p name type st =
     (case find_node p st of
        None \<Rightarrow> (Inl stale, st)
      | Some n \<Rightarrow>
          if name = [] then (Inl (BackendError ''invalid name''), st)
          else (Inr (Some (fresh_id st)),
                update_children p (\<lambda>cs. cs @ [SourceNode (fresh_id st) name type []]) st))"

text \<open>Modelled from the spec: "removes the named child and its entire subtree; returns
  false (not a failure) if no such child exists".\<close>

definition tree_deleteSource ::
  "string \<Rightarrow> string \<Rightarrow> source_node \<Rightarrow> (error + bool) \<times> source_node" where
  "tree_deleteSource p i st =
     (case find_node p st of
        None \<Rightarrow> (Inl stale, st)
      | Some n \<Rightarrow>
          if i \<in> set (map node_id (node_children n))
          then (Inr True, update_children p (filter (\<lambda>c. node_id c \<noteq> i)) st)
          else (Inr False, st))"

text \<open>Modelled from the spec: the Source capability of this backend.\<close>

definition tree_backend :: "(string, source_node) ISource" where
  "tree_backend =
     \<lparr> impl_id = tree_id,
       impl_hasSource = tree_hasSource,
       impl_getSource_id = tree_getSource_id,
       impl_getSource_index = tree_getSource_index,
       impl_sourceCount = tree_sourceCount,
       impl_createSource = tree_createSource,
       impl_deleteSource = tree_deleteSource \<rparr>"

subsection \<open>What the search has to return\<close>

text \<open>
  The nodes exactly \<open>k\<close> hops below a node, and the nodes within \<open>d\<close> hops of it in
  pre-order; both follow the tree and know nothing of the search.
\<close>

fun nodes_at :: "nat \<Rightarrow> source_node \<Rightarrow> source_node list" where
  "nodes_at 0 n = [n]"
| "nodes_at (Suc k) n = concat (map (nodes_at k) (node_children n))"

fun within_hops :: "nat \<Rightarrow> source_node \<Rightarrow> source_node list" where
  "within_hops 0 n = [n]"
| "within_hops (Suc d) n = n # concat (map (within_hops d) (node_children n))"

text \<open>The tree of the specification's scenario: root R with children A and B (type
  probe), A with child A1 (type electrode).\<close>

definition scenario :: source_node where
  "scenario =
     SourceNode ''R'' ''R'' ''root''
       [SourceNode ''A'' ''A'' ''probe'' [SourceNode ''A1'' ''A1'' ''electrode'' []],
        SourceNode ''B'' ''B'' ''probe'' []]"

text \<open>The predicate of the scenario, on handles into a backend state: the type of the
  Source is probe.\<close>

definition is_probe :: "source_node \<Rightarrow> string handle \<Rightarrow> bool" where
  "is_probe st h =
     (case h of
        None \<Rightarrow> False
      | Some p \<Rightarrow> (case find_node p st of None \<Rightarrow> False | Some n \<Rightarrow> node_type n = ''probe''))"

section \<open>Properties of the tree backend\<close>

lemma node_ids_simp: "node_ids (SourceNode j n t cs) = j # concat (map node_ids cs)"
  by (simp add: node_ids_def [abs_def] map_concat comp_def)

lemma self_in_preorder: "t \<in> set (preorder t)"
  by (cases t) simp

lemma find_node_sound:
  "find_node i t = Some m \<Longrightarrow> m \<in> set (preorder t) \<and> node_id m = i"
  "find_nodes i cs = Some m \<Longrightarrow> (\<exists>c \<in> set cs. m \<in> set (preorder c)) \<and> node_id m = i"
  by (induction i t and i cs rule: find_node_find_nodes.induct)
     (auto split: if_splits option.splits)

lemma find_node_None: "i \<notin> set (node_ids t) \<Longrightarrow> find_node i t = None"
  using find_node_sound(1) [of i t] by (cases "find_node i t") (auto simp: node_ids_def)

lemma find_nodes_unique:
  assumes "\<And>c m. c \<in> set cs \<Longrightarrow> distinct (node_ids c) \<Longrightarrow> m \<in> set (preorder c)
             \<Longrightarrow> find_node (node_id m) c = Some m"
    and "distinct (concat (map node_ids cs))" and "c \<in> set cs" and "m \<in> set (preorder c)"
  shows "find_nodes (node_id m) cs = Some m"
  using assms
proof (induction cs)
  case Nil
  then show ?case by simp
next
  case (Cons a cs)
  show ?case
  proof (cases "c = a")
    case True
    with Cons.prems show ?thesis by simp
  next
    case False
    with Cons.prems have c: "c \<in> set cs" by simp
    from Cons.prems(4) have "node_id m \<in> set (node_ids c)" by (simp add: node_ids_def)
    with c Cons.prems(2) have "node_id m \<notin> set (node_ids a)" by auto
    then have "find_node (node_id m) a = None" by (rule find_node_None)
    moreover have "find_nodes (node_id m) cs = Some m"
      using Cons.IH Cons.prems c by simp
    ultimately show ?thesis by simp
  qed
qed

lemma find_node_unique:
  "distinct (node_ids t) \<Longrightarrow> m \<in> set (preorder t) \<Longrightarrow> find_node (node_id m) t = Some m"
proof (induction t arbitrary: m)
  case (SourceNode j n ty cs)
  show ?case
  proof (cases "m = SourceNode j n ty cs")
    case True
    then show ?thesis by simp
  next
    case False
    with SourceNode.prems(2) obtain c where c: "c \<in> set cs" "m \<in> set (preorder c)" by auto
    then have "node_id m \<in> set (concat (map node_ids cs))" by (auto simp: node_ids_def)
    with SourceNode.prems(1) have "node_id m \<noteq> j" by (auto simp: node_ids_simp)
    moreover have "find_nodes (node_id m) cs = Some m"
      using SourceNode.IH SourceNode.prems(1) c
      by (intro find_nodes_unique [of cs c m]) (auto simp: node_ids_simp)
    ultimately show ?thesis by simp
  qed
qed

lemma child_in_preorder:
  "m \<in> set (preorder t) \<Longrightarrow> c \<in> set (node_children m) \<Longrightarrow> c \<in> set (preorder t)"
proof (induction t)
  case (SourceNode j n ty cs)
  then show ?case using self_in_preorder by (cases "m = SourceNode j n ty cs") auto
qed

lemma collect_all:
  "(\<And>i. i \<in> set js \<Longrightarrow> getter i = Inr (h i)) \<Longrightarrow> collect getter js = Inr (map h js)"
  by (induction js) auto

lemma tree_sources:
  assumes "find_node p st = Some n"
  shows "Source_sources tree_backend (Some p) AcceptAll st = Inr (map handle_of (node_children n))"
proof -
  have "collect (\<lambda>i. tree_getSource_index p i st) [0..<length (node_children n)]
          = Inr (map (\<lambda>i. handle_of (node_children n ! i)) [0..<length (node_children n)])"
  proof (rule collect_all)
    fix i assume "i \<in> set [0..<length (node_children n)]"
    then show "tree_getSource_index p i st = Inr (handle_of (node_children n ! i))"
      using assms by (simp add: tree_getSource_index_def)
  qed
  also have "map (\<lambda>i. handle_of (node_children n ! i)) [0..<length (node_children n)]
          = map handle_of (node_children n)"
    using arg_cong [OF map_nth [of "node_children n"], of "map handle_of"]
    by (simp add: comp_def)
  finally show ?thesis using assms
    by (simp add: Source_sources_def Source_sourceCount_def Source_getSource_index_def
          backend_def ebind_def tree_backend_def tree_sourceCount_def getEntities_def AcceptAll_def)
qed

lemma findSources_children_tree:
  assumes "\<And>c acc. c \<in> set cs \<Longrightarrow>
             findSources_rec tree_backend st flt md depth (handle_of c) acc
               = Inr (acc @ map handle_of (filter (\<lambda>c. flt (handle_of c)) (within_hops k c)))"
  shows "findSources_children tree_backend st flt md depth (map handle_of cs) acc
           = Inr (acc @ map handle_of (filter (\<lambda>c. flt (handle_of c)) (concat (map (within_hops k) cs))))"
  using assms by (induction cs arbitrary: acc) simp_all

lemma findSources_rec_tree:
  assumes "unique_ids st"
  shows "n \<in> set (preorder st) \<Longrightarrow>
    findSources_rec tree_backend st flt md depth (handle_of n) acc
      = Inr (acc @ map handle_of (filter (\<lambda>c. flt (handle_of c)) (within_hops (md - depth) n)))"
proof (induction n arbitrary: depth acc)
  case (SourceNode j nm ty cs)
  let ?n = "SourceNode j nm ty cs"
  have look: "find_node j st = Some ?n"
    using find_node_unique [of st ?n] assms SourceNode.prems by (simp add: unique_ids_def)
  show ?case
  proof (cases "depth < md")
    case False
    then show ?thesis by (simp add: findSources_rec.simps [of _ _ _ _ _ "handle_of ?n"])
  next
    case True
    then obtain k where k: "md - depth = Suc k" "md - (depth + 1) = k"
      by (cases "md - depth") auto
    have kids: "Source_sources tree_backend (handle_of ?n) AcceptAll st = Inr (map handle_of cs)"
      using tree_sources [OF look] by (simp add: handle_of_def)
    have rec: "\<And>c acc. c \<in> set cs \<Longrightarrow>
        findSources_rec tree_backend st flt md (depth + 1) (handle_of c) acc
          = Inr (acc @ map handle_of (filter (\<lambda>c. flt (handle_of c)) (within_hops k c)))"
      using SourceNode.IH [where depth = "depth + 1"] child_in_preorder [OF SourceNode.prems] k(2)
      by simp
    show ?thesis
      using True kids k(1) findSources_children_tree [of cs st flt md "depth + 1" k, OF rec]
      by (simp add: findSources_rec.simps [of _ _ _ _ _ "handle_of ?n"])
  qed
qed

lemma distinct_concat_sub:
  "distinct (concat (map g cs)) \<Longrightarrow>
   (\<And>c. c \<in> set cs \<Longrightarrow> distinct (f c) \<and> set (f c) \<subseteq> set (g c)) \<Longrightarrow>
   distinct (concat (map f cs))"
proof (induction cs)
  case Nil
  then show ?case by simp
next
  case (Cons a cs)
  have a: "distinct (f a)" and sa: "set (f a) \<subseteq> set (g a)"
    using Cons.prems(2) [of a] by simp_all
  have rest: "distinct (concat (map f cs))"
    using Cons.IH Cons.prems by simp
  have "set (f a) \<inter> set (concat (map f cs)) = {}"
  proof (rule ccontr)
    assume "set (f a) \<inter> set (concat (map f cs)) \<noteq> {}"
    then obtain x c where x: "x \<in> set (f a)" "c \<in> set cs" "x \<in> set (f c)" by auto
    then have "x \<in> set (g a)" "x \<in> set (g c)" using sa Cons.prems(2) [of c] by auto
    then have "x \<in> set (g a) \<inter> set (concat (map g cs))" using x(2) by auto
    with Cons.prems(1) show False by auto
  qed
  with a rest show ?case by simp
qed

lemma within_hops_subset: "set (within_hops d n) \<subseteq> set (preorder n)"
proof (induction n arbitrary: d)
  case (SourceNode j nm ty cs)
  show ?case
  proof (cases d)
    case 0
    then show ?thesis by simp
  next
    case (Suc k)
    then show ?thesis using SourceNode.IH [of _ k] by auto
  qed
qed


lemma child_ids_distinct:
  "distinct (node_ids (SourceNode j nm ty cs)) \<Longrightarrow> c \<in> set cs \<Longrightarrow> distinct (node_ids c)"
  by (simp add: node_ids_simp distinct_concat_iff)

lemma within_hops_distinct:
  "distinct (node_ids n) \<Longrightarrow> distinct (map node_id (within_hops d n))"
proof (induction n arbitrary: d)
  case (SourceNode j nm ty cs)
  show ?case
  proof (cases d)
    case 0
    then show ?thesis by simp
  next
    case (Suc k)
    let ?f = "\<lambda>c. map node_id (within_hops k c)"
    have sub: "set (?f c) \<subseteq> set (node_ids c)" for c
      using within_hops_subset [of k c] by (auto simp: node_ids_def)
    have each: "c \<in> set cs \<Longrightarrow> distinct (?f c) \<and> set (?f c) \<subseteq> set (node_ids c)" for c
      using SourceNode.IH [of c k] child_ids_distinct [OF SourceNode.prems] sub by blast
    have all: "distinct (concat (map node_ids cs))"
      using SourceNode.prems by (simp add: node_ids_simp)
    have d: "distinct (concat (map ?f cs))"
      using all each by (rule distinct_concat_sub)
    have "set (concat (map ?f cs)) \<subseteq> set (concat (map node_ids cs))"
      using sub by auto
    moreover have "j \<notin> set (concat (map node_ids cs))"
      using SourceNode.prems by (simp add: node_ids_simp)
    ultimately have "j \<notin> set (concat (map ?f cs))" by blast
    with d show ?thesis using Suc by (simp add: map_concat comp_def)
  qed
qed

lemma subtree_distinct:
  "distinct (node_ids t) \<Longrightarrow> n \<in> set (preorder t) \<Longrightarrow> distinct (node_ids n)"
proof (induction t)
  case (SourceNode j nm ty cs)
  show ?case
  proof (cases "n = SourceNode j nm ty cs")
    case True
    with SourceNode.prems show ?thesis by simp
  next
    case False
    with SourceNode.prems(2) obtain c where c: "c \<in> set cs" "n \<in> set (preorder c)" by auto
    have "distinct (node_ids c)"
      using SourceNode.prems(1) c(1) by (rule child_ids_distinct)
    with SourceNode.IH c show ?thesis by blast
  qed
qed

lemma handles_distinct:
  assumes "unique_ids st" and "n \<in> set (preorder st)"
  shows "distinct (map handle_of (filter P (within_hops d n)))"
proof -
  have "distinct (node_ids n)"
    using assms subtree_distinct by (simp add: unique_ids_def)
  then have "distinct (map node_id (within_hops d n))"
    by (rule within_hops_distinct)
  then have "distinct (map node_id (filter P (within_hops d n)))"
    by (rule distinct_map_filter)
  moreover have "distinct ys \<Longrightarrow> distinct (map Some ys)" for ys :: "string list"
    by (simp add: distinct_map)
  ultimately have "distinct (map Some (map node_id (filter P (within_hops d n))))"
    by blast
  then show ?thesis by (simp add: handle_of_def [abs_def] comp_def)
qed


lemma subseq_concat_map:
  "(\<And>c. c \<in> set cs \<Longrightarrow> subseq (f c) (g c)) \<Longrightarrow> subseq (concat (map f cs)) (concat (map g cs))"
proof (induction cs)
  case Nil
  then show ?case by simp
next
  case (Cons a cs)
  have "subseq (f a) (g a)" using Cons.prems by simp
  moreover have "subseq (concat (map f cs)) (concat (map g cs))"
    using Cons.IH Cons.prems by simp
  ultimately show ?case by (simp add: list_emb_append_mono)
qed

lemma within_hops_subseq: "subseq (within_hops d n) (preorder n)"
proof (induction n arbitrary: d)
  case (SourceNode j nm ty cs)
  show ?case
  proof (cases d)
    case 0
    then show ?thesis by simp
  next
    case (Suc k)
    have "subseq (concat (map (within_hops k) cs)) (concat (map preorder cs))"
      using SourceNode.IH by (rule subseq_concat_map)
    with Suc show ?thesis by simp
  qed
qed

lemma within_hops_nodes_at:
  "m \<in> set (within_hops d n) \<longleftrightarrow> (\<exists>k\<le>d. m \<in> set (nodes_at k n))"
proof (induction d arbitrary: n)
  case 0
  then show ?case by simp
next
  case (Suc d)
  have split: "(\<exists>k\<le>Suc d. Q k) \<longleftrightarrow> Q 0 \<or> (\<exists>k\<le>d. Q (Suc k))" for Q
  proof
    assume "\<exists>k\<le>Suc d. Q k"
    then obtain k where k: "k \<le> Suc d" "Q k" by blast
    then show "Q 0 \<or> (\<exists>k\<le>d. Q (Suc k))" by (cases k) auto
  next
    assume "Q 0 \<or> (\<exists>k\<le>d. Q (Suc k))"
    then show "\<exists>k\<le>Suc d. Q k" by auto
  qed
  have "m \<in> set (within_hops (Suc d) n) \<longleftrightarrow>
        m = n \<or> (\<exists>c\<in>set (node_children n). m \<in> set (within_hops d c))"
    by auto
  also have "\<dots> \<longleftrightarrow> m = n \<or> (\<exists>c\<in>set (node_children n). \<exists>k\<le>d. m \<in> set (nodes_at k c))"
    using Suc.IH by simp
  also have "\<dots> \<longleftrightarrow> m \<in> set (nodes_at 0 n) \<or> (\<exists>k\<le>d. m \<in> set (nodes_at (Suc k) n))"
    by auto
  also have "\<dots> \<longleftrightarrow> (\<exists>k\<le>Suc d. m \<in> set (nodes_at k n))"
    by (rule split [symmetric])
  finally show ?case .
qed

lemma reject_all:
  "(\<And>h. \<not> flt h) \<Longrightarrow> findSources_rec B st flt md depth cur acc = Inr r \<Longrightarrow> r = acc"
  "(\<And>h. \<not> flt h) \<Longrightarrow> findSources_children B st flt md depth cs acc = Inr r \<Longrightarrow> r = acc"
proof (induction B st flt md depth cur acc and B st flt md depth cs acc
        arbitrary: r and r rule: findSources_rec_findSources_children.induct)
  case (1 B st flt max_depth depth cur results)
  have unfold: "findSources_rec B st flt max_depth depth cur results =
      (if depth < max_depth
       then (case Source_sources B cur AcceptAll st of
               Inl e \<Rightarrow> Inl e
             | Inr children \<Rightarrow>
                 findSources_children B st flt max_depth (depth + 1) children results)
       else Inr results)"
    by (subst findSources_rec.simps) (simp add: "1.prems"(1))
  show ?case
  proof (cases "depth < max_depth")
    case False
    with "1.prems"(2) unfold show ?thesis by simp
  next
    case True
    with "1.prems"(2) unfold obtain children where
      c: "Source_sources B cur AcceptAll st = Inr children"
         "findSources_children B st flt max_depth (depth + 1) children results = Inr r"
      by (auto split: sum.splits)
    have "(if flt cur then results @ [cur] else results) = results"
      by (simp add: "1.prems"(1))
    then show ?thesis
      using "1.IH" [OF refl True c(1) "1.prems"(1), of r] c(2) by simp
  qed
next
  case (2 B st flt max_depth depth results)
  then show ?case by simp
next
  case (3 B st flt max_depth depth c cs results)
  from "3.prems"(2) obtain r1 where
    r1: "findSources_rec B st flt max_depth depth c results = Inr r1"
        "findSources_children B st flt max_depth depth cs r1 = Inr r"
    by (simp split: sum.splits)
  have "r1 = results" using "3.IH"(1) "3.prems"(1) r1(1) by blast
  moreover have "r = r1" using "3.IH"(2) [OF r1(1)] "3.prems"(1) r1(2) by blast
  ultimately show ?case by simp
qed


lemma find_node_complete:
  "i \<in> set (node_ids t) \<Longrightarrow> find_node i t \<noteq> None"
  "i \<in> set (concat (map node_ids cs)) \<Longrightarrow> find_nodes i cs \<noteq> None"
proof (induction i t and i cs rule: find_node_find_nodes.induct)
  case (1 i j n t cs)
  then show ?case by (cases "i = j") (auto simp: node_ids_simp)
next
  case (2 i)
  then show ?case by simp
next
  case (3 i c cs)
  show ?case
  proof (cases "find_node i c")
    case None
    with "3.prems" "3.IH"(1) have "i \<in> set (concat (map node_ids cs))" by auto
    with "3.IH"(2) None show ?thesis by simp
  next
    case (Some r)
    then show ?thesis by simp
  qed
qed

lemma resolves_children:
  assumes "find_node p st = Some n" and "c \<in> set (node_children n)"
  shows "find_node (node_id c) st \<noteq> None"
proof -
  have "n \<in> set (preorder st)" using find_node_sound(1) [OF assms(1)] by simp
  then have "c \<in> set (preorder st)" using assms(2) by (rule child_in_preorder)
  then have "node_id c \<in> set (node_ids st)" by (simp add: node_ids_def)
  then show ?thesis by (rule find_node_complete(1))
qed

lemma findSources_children_returns:
  assumes "\<And>c acc. c \<in> set cs \<Longrightarrow>
             \<exists>r. findSources_rec tree_backend st flt md depth (handle_of c) acc = Inr r"
  shows "\<exists>r. findSources_children tree_backend st flt md depth (map handle_of cs) acc = Inr r"
  using assms
proof (induction cs arbitrary: acc)
  case Nil
  then show ?case by simp
next
  case (Cons c cs)
  from Cons.prems [of c acc] obtain r1 where
    "findSources_rec tree_backend st flt md depth (handle_of c) acc = Inr r1" by auto
  moreover have "\<exists>r. findSources_children tree_backend st flt md depth (map handle_of cs) r1 = Inr r"
    using Cons.IH Cons.prems by simp
  ultimately show ?case by simp
qed

lemma findSources_rec_returns:
  "find_node p st \<noteq> None \<Longrightarrow>
   \<exists>r. findSources_rec tree_backend st flt md depth (Some p) acc = Inr r"
proof (induction "md - depth" arbitrary: p depth acc)
  case 0
  then have "\<not> depth < md" by simp
  then show ?case
    by (simp add: findSources_rec.simps [of tree_backend st flt md depth "Some p" acc])
next
  case (Suc k)
  from Suc.prems obtain n where n: "find_node p st = Some n" by auto
  have lt: "depth < md" and k: "k = md - (depth + 1)" using Suc.hyps(2) by auto
  have kids: "Source_sources tree_backend (Some p) AcceptAll st = Inr (map handle_of (node_children n))"
    using n by (rule tree_sources)
  have "\<exists>r. findSources_rec tree_backend st flt md (depth + 1) (handle_of c) acc' = Inr r"
    if "c \<in> set (node_children n)" for c acc'
    using Suc.hyps(1) [OF k resolves_children [OF n that], of acc'] by (simp only: handle_of_def)
  then have "\<exists>r. findSources_children tree_backend st flt md (depth + 1)
               (map handle_of (node_children n)) acc' = Inr r" for acc'
    by (rule findSources_children_returns)
  then show ?case
    using lt kids
    by (simp add: findSources_rec.simps [of tree_backend st flt md depth "Some p" acc] Let_def)
qed

section \<open>The claims\<close>

text \<open>
  C1. In a tree with unique ids, for every Source \<open>s\<close> of the tree, predicate and
  \<open>max_depth\<close> \<open>d\<close>, the search from \<open>s\<close> returns the handles of the nodes within \<open>d\<close>
  hops of \<open>s\<close> that satisfy the predicate, in pre-order (a node, then the searches of
  its children in the order of \<open>sources()\<close>). No handle is returned twice. The nodes
  visited are exactly those \<open>k \<le> d\<close> hops below \<open>s\<close>, \<open>s\<close> itself at depth 0, in the
  order in which the pre-order listing of the whole subtree has them; with \<open>d = 0\<close> only
  \<open>s\<close> is evaluated and no child is. With the filter that accepts all, the result is
  every node within \<open>d\<close> hops.
\<close>

theorem findSources_preorder_within_depth:
  "unique_ids st \<Longrightarrow> s \<in> set (preorder st) \<Longrightarrow>
   findSources tree_backend (handle_of s) flt d st =
     Inr (map handle_of (filter (\<lambda>n. flt (handle_of n)) (within_hops d s)))
   \<and> distinct (map handle_of (filter (\<lambda>n. flt (handle_of n)) (within_hops d s)))
   \<and> (\<forall>m. m \<in> set (within_hops d s) \<longleftrightarrow> (\<exists>k\<le>d. m \<in> set (nodes_at k s)))
   \<and> subseq (within_hops d s) (preorder s)
   \<and> findSources tree_backend (handle_of s) flt 0 st =
       Inr (if flt (handle_of s) then [handle_of s] else [])
   \<and> findSources tree_backend (handle_of s) AcceptAll d st = Inr (map handle_of (within_hops d s))"
proof -
  assume u: "unique_ids st" and s: "s \<in> set (preorder st)"
  have search: "findSources tree_backend (handle_of s) f k st =
      Inr (map handle_of (filter (\<lambda>n. f (handle_of n)) (within_hops k s)))" for f k
    using findSources_rec_tree [OF u s, of f k 0 "[]"] by (simp add: findSources_def)
  have "distinct (map handle_of (filter (\<lambda>n. flt (handle_of n)) (within_hops d s)))"
    using u s by (rule handles_distinct)
  moreover have "\<forall>m. m \<in> set (within_hops d s) \<longleftrightarrow> (\<exists>k\<le>d. m \<in> set (nodes_at k s))"
    using within_hops_nodes_at by blast
  moreover have "subseq (within_hops d s) (preorder s)"
    by (rule within_hops_subseq)
  moreover have "findSources tree_backend (handle_of s) flt 0 st =
       Inr (if flt (handle_of s) then [handle_of s] else [])"
    by (simp add: search)
  moreover have "findSources tree_backend (handle_of s) AcceptAll d st =
       Inr (map handle_of (within_hops d s))"
    by (simp add: search AcceptAll_def)
  ultimately show ?thesis using search by blast
qed

theorem findSources_preorder_within_depth_witness:
  "unique_ids scenario \<and> scenario \<in> set (preorder scenario)
   \<and> findSources tree_backend (Some ''R'') (is_probe scenario) 1 scenario =
       Inr [Some ''A'', Some ''B'']
   \<and> findSources tree_backend (Some ''R'') AcceptAll 1 scenario =
       Inr [Some ''R'', Some ''A'', Some ''B'']"
proof -
  have u: "unique_ids scenario"
    by code_simp
  have m: "scenario \<in> set (preorder scenario)"
    by (simp add: scenario_def)
  have root: "handle_of scenario = Some ''R''"
    by (simp add: handle_of_def scenario_def)
  have probes: "map handle_of (filter (\<lambda>n. is_probe scenario (handle_of n))
                  (within_hops 1 scenario)) = [Some ''A'', Some ''B'']"
    by code_simp
  have everyone: "map handle_of (filter (\<lambda>n. AcceptAll (handle_of n))
                  (within_hops 1 scenario)) = [Some ''R'', Some ''A'', Some ''B'']"
    by code_simp
  have "findSources tree_backend (handle_of scenario) (is_probe scenario) 1 scenario =
          Inr [Some ''A'', Some ''B'']"
    using findSources_preorder_within_depth [OF u m, of "is_probe scenario" 1, THEN conjunct1]
    by (simp only: probes)
  moreover have "findSources tree_backend (handle_of scenario) AcceptAll 1 scenario =
          Inr [Some ''R'', Some ''A'', Some ''B'']"
    using findSources_preorder_within_depth [OF u m, of AcceptAll 1, THEN conjunct1]
    by (simp only: everyone)
  ultimately show ?thesis using u m by (simp only: root simp_thms)
qed

text \<open>
  C2. For every Representation or Feature handle \<open>r\<close> (empty or not), every backend and
  every backend state, \<open>data\<close> called with the empty DataArray fails with
  InvalidArgument and returns the state it was given. The backend is arbitrary, so no
  method of it can have run; in particular the data reference read back afterwards is the
  one read before.
\<close>

theorem data_empty_DataArray_rejected:
  "Representation_data B idf r None st =
     (Inl (InvalidArgument ''Empty data entity (DataArray) given''), st)
   \<and> Feature_data B idf r None st =
     (Inl (InvalidArgument ''Empty data entity (DataArray) given''), st)
   \<and> Representation_data_get B r (snd (Representation_data B idf r None st)) =
       Representation_data_get B r st
   \<and> Representation_data_get B r (snd (Feature_data B idf r None st)) =
       Representation_data_get B r st"
  by (simp add: Representation_data_def Feature_data_def is_none_def)

text \<open>
  C3. For a Source \<open>s\<close> of a tree with unique ids, \<open>deleteSource\<close> of an id that no
  direct child of \<open>s\<close> has returns false, raises nothing and leaves the tree as it was.
  \<open>deleteSource\<close> of the empty Source fails with InvalidArgument, on every receiver and
  backend. The two outcomes differ: one is the value false, the other an error.
\<close>

theorem deleteSource_soft_and_hard_failure:
  "unique_ids st \<Longrightarrow> s \<in> set (preorder st) \<Longrightarrow> i \<notin> set (map node_id (node_children s)) \<Longrightarrow>
   Source_deleteSource_id tree_backend (handle_of s) i st = (Inr False, st)
   \<and> Source_deleteSource B r None st' =
       (Inl (InvalidArgument ''Source::deleteSource: empty Source entity given!''), st')
   \<and> fst (Source_deleteSource_id tree_backend (handle_of s) i st) \<noteq>
       fst (Source_deleteSource B r None st')"
  using find_node_unique [of st s]
  by (simp add: Source_deleteSource_id_def Source_deleteSource_def is_none_def sbind_def
        backend_def tree_backend_def tree_deleteSource_def unique_ids_def handle_of_def)

theorem deleteSource_soft_and_hard_failure_witness:
  "unique_ids scenario
   \<and> SourceNode ''A'' ''A'' ''probe'' [SourceNode ''A1'' ''A1'' ''electrode'' []]
       \<in> set (preorder scenario)
   \<and> Source_deleteSource_id tree_backend (Some ''A'') ''B'' scenario = (Inr False, scenario)
   \<and> Source_deleteSource tree_backend (Some ''R'') None scenario =
       (Inl (InvalidArgument ''Source::deleteSource: empty Source entity given!''), scenario)"
proof -
  let ?A = "SourceNode ''A'' ''A'' ''probe'' [SourceNode ''A1'' ''A1'' ''electrode'' []]"
  have u: "unique_ids scenario"
    by (simp add: unique_ids_def node_ids_def scenario_def)
  have m: "?A \<in> set (preorder scenario)"
    by (simp add: scenario_def)
  have c: "''B'' \<notin> set (map node_id (node_children ?A))"
    by simp
  show ?thesis
    using u m
      deleteSource_soft_and_hard_failure [OF u m c, of tree_backend "Some ''R''" scenario]
    by (simp add: handle_of_def)
qed

text \<open>
  C4. Two handles compare equal exactly when both refer to the same backend object or
  both are empty. Assigning the null sentinel leaves the handle empty whatever it held:
  it then equals a default-constructed handle, and it does not equal a handle to the
  object \<open>p\<close> it referred to before.
\<close>

theorem handle_equality_and_assign_none:
  "(handle_eq a b \<longleftrightarrow> (\<exists>p. a = Some p \<and> b = Some p) \<or> (a = None \<and> b = None))
   \<and> Source_assign_none a = None
   \<and> handle_eq (Source_assign_none a) default_handle
   \<and> \<not> handle_eq (Source_assign_none (Some p)) (Some p)"
  by (cases a; cases b) (auto simp: Source_assign_none_def nullify_def default_handle_def)

text \<open>
  C5, as stated, fails: on a stream with a pending field width of 12 and left adjustment,
  streaming Tagged pads the prefix alone and writes "LinkType::  Tagged".
\<close>

theorem stream_LinkType_pending_width:
  "os_chars (stream_LinkType
      \<lparr> os_chars = [], os_width = 12, os_fill = CHR '' '', os_adjust = AdjustLeft,
        os_good = True \<rparr> Tagged) = ''LinkType::  Tagged''
   \<and> os_chars (stream_LinkType
      \<lparr> os_chars = [], os_width = 12, os_fill = CHR '' '', os_adjust = AdjustLeft,
        os_good = True \<rparr> Tagged) \<noteq> ''LinkType::Tagged''"
  by (simp add: stream_LinkType_def insert_string_def link_type_to_string_def Tagged_def
        eval_nat_numeral)

text \<open>
  C5, amended. The codec maps Tagged, Untagged and Indexed to their names. On a stream
  in good state whose pending field width is at most 10, the length of the prefix (it is
  0 unless a width was set), streaming a LinkType value appends its name prefixed with
  "LinkType::": "LinkType::Tagged", "LinkType::Untagged", "LinkType::Indexed". On every
  stream in good state the padding for the pending width goes to the prefix alone, after
  it under left adjustment and before it otherwise, and the width is 0 afterwards; on a
  stream that is not good nothing is written.
\<close>

theorem stream_LinkType_names:
  "link_type_to_string Tagged = ''Tagged''
   \<and> link_type_to_string Untagged = ''Untagged''
   \<and> link_type_to_string Indexed = ''Indexed''
   \<and> (os_good out \<and> os_width out \<le> 10 \<longrightarrow>
         os_chars (stream_LinkType out Tagged) = os_chars out @ ''LinkType::Tagged''
       \<and> os_chars (stream_LinkType out Untagged) = os_chars out @ ''LinkType::Untagged''
       \<and> os_chars (stream_LinkType out Indexed) = os_chars out @ ''LinkType::Indexed'')
   \<and> stream_LinkType out ltype =
       (if os_good out
        then out\<lparr> os_chars := os_chars out @
                     (if os_adjust out = AdjustLeft
                      then ''LinkType::'' @ replicate (os_width out - 10) (os_fill out)
                             @ link_type_to_string ltype
                      else replicate (os_width out - 10) (os_fill out) @ ''LinkType::''
                             @ link_type_to_string ltype),
                   os_width := 0 \<rparr>
        else out)"
  by (simp add: stream_LinkType_def insert_string_def link_type_to_string_def Tagged_def
        Untagged_def Indexed_def)

theorem stream_LinkType_names_witness:
  "os_good (plain_ostream []) \<and> os_width (plain_ostream []) \<le> 10
   \<and> os_chars (stream_LinkType (plain_ostream []) Tagged) = ''LinkType::Tagged''
   \<and> os_chars (stream_LinkType (plain_ostream []) Untagged) = ''LinkType::Untagged''
   \<and> os_chars (stream_LinkType (plain_ostream []) Indexed) = ''LinkType::Indexed''"
  using stream_LinkType_names [of "plain_ostream []"]
  by (simp add: plain_ostream_def)

text \<open>
  C6. \<open>Feature::data\<close> and \<open>Representation::data\<close> are the same function of the handle,
  the DataArray argument and the backend: both fail with InvalidArgument on the empty
  DataArray, and on a DataArray \<open>a\<close> both are the backend's setter applied to the id of
  \<open>a\<close>.
\<close>

theorem Feature_data_same_as_Representation_data:
  "Feature_data B idf h d st = Representation_data B idf h d st
   \<and> fst (Feature_data B idf h None st) =
       Inl (InvalidArgument ''Empty data entity (DataArray) given'')
   \<and> fst (Representation_data B idf h None st) =
       Inl (InvalidArgument ''Empty data entity (DataArray) given'')
   \<and> Feature_data B idf (Some p) (Some a) st = impl_data_set B p (idf a st) st
   \<and> Representation_data B idf (Some p) (Some a) st = impl_data_set B p (idf a st) st"
  by (simp add: Representation_data_def Feature_data_def is_none_def sbind_def ebind_def
        backend_def entity_id_def)

text \<open>
  C7. For every tree, every Source \<open>s\<close> of it and every \<open>max_depth\<close>, the search with a
  predicate that rejects every Source returns, and returns the empty sequence.
\<close>

theorem findSources_reject_all:
  "\<forall>h. \<not> flt h \<Longrightarrow> s \<in> set (preorder st) \<Longrightarrow>
   findSources tree_backend (handle_of s) flt d st = Inr []"
proof -
  assume rej: "\<forall>h. \<not> flt h" and s: "s \<in> set (preorder st)"
  have "node_id s \<in> set (node_ids st)" using s by (simp add: node_ids_def)
  then have "find_node (node_id s) st \<noteq> None" by (rule find_node_complete(1))
  then have "\<exists>r. findSources_rec tree_backend st flt d 0 (Some (node_id s)) [] = Inr r"
    by (rule findSources_rec_returns)
  then obtain r where r: "findSources_rec tree_backend st flt d 0 (Some (node_id s)) [] = Inr r" ..
  have "\<not> flt h" for h using rej by simp
  then have "r = []" using r by (rule reject_all(1))
  with r show ?thesis by (simp add: findSources_def handle_of_def)
qed

theorem findSources_reject_all_witness:
  "(\<forall>h :: string handle. \<not> (\<lambda>_. False) h) \<and> scenario \<in> set (preorder scenario)
   \<and> findSources tree_backend (Some ''R'') (\<lambda>_. False) 5 scenario = Inr []"
proof -
  have rej: "\<forall>h :: string handle. \<not> (\<lambda>_. False) h"
    by simp
  have m: "scenario \<in> set (preorder scenario)"
    by (simp add: scenario_def)
  have root: "handle_of scenario = Some ''R''"
    by (simp add: handle_of_def scenario_def)
  have "findSources tree_backend (handle_of scenario) (\<lambda>_. False) 5 scenario = Inr []"
    using rej m by (rule findSources_reject_all)
  then show ?thesis using rej m by (simp only: root simp_thms)
qed

text \<open>
  C8. A call requires the backend when it gets as far as \<^verbatim>\<open>backend()\<close>. On a
  default-constructed handle every such call of an operation of Source, Representation
  or Feature fails with NullEntity, returns no value and leaves the backend state as it
  was: every call of an operation that takes no entity argument; \<open>hasSource\<close>,
  \<open>deleteSource\<close> and \<open>data\<close> on a Source or DataArray argument that is not empty; and
  the search at a \<open>max_depth\<close> above 0, whatever the predicate. The calls that end before
  the backend is asked for are the remaining ones: the empty argument is rejected with
  InvalidArgument first, and the search at \<open>max_depth\<close> 0 evaluates the predicate on the
  receiver and does not call \<open>sources()\<close>.
\<close>

theorem empty_handle_NullEntity:
  "Source_id B default_handle st = Inl NullEntity
   \<and> Source_sourceCount B default_handle st = Inl NullEntity
   \<and> Source_getSource_id B default_handle i st = Inl NullEntity
   \<and> Source_getSource_index B default_handle k st = Inl NullEntity
   \<and> Source_hasSource_id B default_handle i st = Inl NullEntity
   \<and> Source_sources B default_handle flt st = Inl NullEntity
   \<and> Source_createSource B default_handle name type st = (Inl NullEntity, st)
   \<and> Source_deleteSource_id B default_handle i st = (Inl NullEntity, st)
   \<and> Source_hasSource B default_handle (Some q) st = Inl NullEntity
   \<and> Source_deleteSource B default_handle (Some q) st = (Inl NullEntity, st)
   \<and> findSources B default_handle flt (Suc d) st = Inl NullEntity
   \<and> Representation_linkType R default_handle st' = Inl NullEntity
   \<and> Representation_linkType_set R default_handle t st' = (Inl NullEntity, st')
   \<and> Representation_data_get R default_handle st' = Inl NullEntity
   \<and> Representation_data_id R default_handle i st' = (Inl NullEntity, st')
   \<and> Representation_data R idf default_handle (Some a) st' = (Inl NullEntity, st')
   \<and> Feature_data R idf default_handle (Some a) st' = (Inl NullEntity, st')
   \<and> Source_hasSource B default_handle None st =
       Inl (InvalidArgument ''Source::hasSource: emtpy Source entity given!'')
   \<and> Source_deleteSource B default_handle None st =
       (Inl (InvalidArgument ''Source::deleteSource: empty Source entity given!''), st)
   \<and> Representation_data R idf default_handle None st' =
       (Inl (InvalidArgument ''Empty data entity (DataArray) given''), st')
   \<and> Feature_data R idf default_handle None st' =
       (Inl (InvalidArgument ''Empty data entity (DataArray) given''), st')
   \<and> findSources B default_handle flt 0 st =
       Inr (if flt default_handle then [default_handle] else [])"
proof -
  have kids: "Source_sources B None f st = Inl NullEntity" for f
    by (simp add: Source_sources_def Source_sourceCount_def backend_def ebind_def)
  have deep: "findSources B None flt (Suc d) st = Inl NullEntity"
    by (simp add: findSources_def findSources_rec.simps [of B st flt "Suc d" 0 None "[]"] kids)
  have flat: "findSources B None flt 0 st = Inr (if flt None then [None] else [])"
    by (simp add: findSources_def findSources_rec.simps [of B st flt 0 0 None "[]"])
  show ?thesis
    unfolding default_handle_def
    by (simp add: kids deep flat backend_def ebind_def sbind_def is_none_def
          Source_id_def entity_id_def
          Source_sourceCount_def Source_getSource_id_def Source_getSource_index_def
          Source_hasSource_id_def Source_createSource_def
          Source_deleteSource_id_def Source_hasSource_def Source_deleteSource_def
          Representation_linkType_def Representation_linkType_set_def
          Representation_data_get_def Representation_data_id_def Representation_data_def
          Feature_data_def)
qed

text \<open>
  C9. For a non-empty Source argument \<open>Some q\<close>, whose id is \<open>impl_id B q st\<close>,
  \<open>hasSource\<close> and \<open>deleteSource\<close> give what the overloads taking an id give on that
  id, for every receiver, backend and state.
\<close>

theorem Source_overloads_agree:
  "Source_id B (Some q) st = Inr (impl_id B q st)
   \<and> Source_hasSource B s (Some q) st = Source_hasSource_id B s (impl_id B q st) st
   \<and> Source_deleteSource B s (Some q) st = Source_deleteSource_id B s (impl_id B q st) st"
  by (simp add: Source_id_def entity_id_def backend_def ebind_def sbind_def
        Source_hasSource_def Source_hasSource_id_def Source_deleteSource_def
        Source_deleteSource_id_def is_none_def split: option.splits)

text \<open>
  C10. \<open>link_type_to_string\<close> returns a string for every value of the enum's underlying
  type: for a value that is none of Tagged, Untagged, Indexed no case of the switch
  fires and the result is the empty string. Streaming such a value then writes just the
  field "LinkType::": on every stream, what inserting that one string writes, and on a
  stream in its initial format state exactly the characters "LinkType::".
\<close>

theorem link_type_to_string_out_of_range:
  "ltype \<notin> {Tagged, Untagged, Indexed} \<Longrightarrow>
   link_type_to_string ltype = []
   \<and> stream_LinkType out ltype = insert_string out ''LinkType::''
   \<and> os_chars (stream_LinkType (plain_ostream cs) ltype) = cs @ ''LinkType::''
   \<and> (os_good out \<and> os_width out \<le> 10 \<longrightarrow>
         os_chars (stream_LinkType out ltype) = os_chars out @ ''LinkType::'')"
  by (simp add: stream_LinkType_def insert_string_def link_type_to_string_def
        plain_ostream_def)

theorem link_type_to_string_out_of_range_witness:
  "(7 :: LinkType) \<notin> {Tagged, Untagged, Indexed}
   \<and> os_good (plain_ostream []) \<and> os_width (plain_ostream []) \<le> 10
   \<and> link_type_to_string 7 = []
   \<and> os_chars (stream_LinkType (plain_ostream []) 7) = ''LinkType::''"
proof -
  have range: "(7 :: LinkType) \<notin> {Tagged, Untagged, Indexed}"
    by (simp add: Tagged_def Untagged_def Indexed_def)
  have plain: "os_good (plain_ostream []) \<and> os_width (plain_ostream []) \<le> 10"
    by (simp add: plain_ostream_def)
  have "link_type_to_string 7 = []"
    using link_type_to_string_out_of_range [OF range] by (rule conjunct1)
  moreover have "os_chars (stream_LinkType (plain_ostream []) 7) = ''LinkType::''"
    using link_type_to_string_out_of_range
            [OF range, of "plain_ostream []" "[]", THEN conjunct2, THEN conjunct2, THEN conjunct1]
    by simp
  ultimately show ?thesis using range plain by blast
qed

end
